theory Spec2Isabelle
  imports Main
begin

section \<open>The CSV import service: data model\<close>

text \<open>
  The service keeps two process-wide flags, one in-memory SQLite database and any number
  of request handlers in flight. JavaScript runs one handler segment at a time: a
  handler runs without interruption up to its next \<open>await\<close>, and is resumed by an event
  of the runtime (a timer, the completion of a database call, a stream event). The model
  is therefore a machine whose steps are these events; a task is a handler suspended at
  an \<open>await\<close>.

  Values that travel between the CSV parser, the engine and the JSON responses are text,
  NULL (JavaScript \<open>undefined\<close> bound as a parameter) or a number (a row count).
\<close>

datatype sqlval = Null | Text string | Integer nat

type_synonym coldef = "string \<times> string"

type_synonym csv_record = "(string \<times> string) list"

type_synonym result_rows = "(string \<times> sqlval) list list"

record table =
  columns :: "coldef list"
  rows :: "sqlval list list"

type_synonym database = "string \<rightharpoonup> table"

text \<open>
  The statements the program sends to the engine. The source builds them as text
  (\<open>DROP TABLE IF EXISTS ${tableName}\<close>, \<open>PRAGMA table_info(${tableName})\<close>, ...);
  the model keeps the statement kind and its arguments. A user query of \<open>/api/query\<close>
  is any of them; \<open>Malformed\<close> is text the engine cannot parse.
\<close>

datatype sql =
    Drop_Table_If_Exists string
  | Create_Table string "coldef list"
  | Pragma_Table_Info string
  | Select_Count string
  | Select_All string
  | Delete_From string
  | Malformed string

text \<open>
  A prepared \<open>INSERT INTO t VALUES (?, ...)\<close> with the parameter rows passed to
  \<open>stmt.run\<close> and not yet executed by the engine.
\<close>

record stmt =
  target :: string
  queue :: "sqlval list list"

datatype http_method = GET | POST

record request =
  http_method :: http_method
  path :: string
  query :: "sql option"

datatype body =
    Json_Message bool string
  | Json_Init bool string "(sqlval \<times> sqlval) list"
  | Json_Data bool result_rows string
  | Json_Schema bool "(sqlval \<times> sqlval) list"
  | Json_Health bool bool
  | Plain_Text string
  | No_Route

record response =
  status :: nat
  body :: body

datatype caller = Auto_Init | Http

datatype outcome = Responded response | Logged

text \<open>
  Where a task is suspended. The constructors from \<open>Polling\<close> to \<open>Inserting\<close> are the
  \<open>await\<close>s of \<open>loadCSVData\<close>; \<open>Inserting headers batch totalRows\<close> holds the
  local variables of the second pass over the file.
\<close>

datatype pc =
    Polling
  | Info_Pragma
  | Info_Count result_rows
  | Read_Header
  | Dropping "string list"
  | Creating "string list"
  | Inserting "string list" "csv_record list" nat
  | Fast_Pragma
  | Fast_Count result_rows
  | Querying sql
  | Schema_Query string
  | Done outcome

type_synonym task = "caller \<times> pc"

record state =
  isDatabaseInitialized :: bool
  isInitializing :: bool
  db :: database
  stmts :: "stmt list"
  tasks :: "task list"
  streamsOpened :: nat

text \<open>
  The events of the runtime. \<open>Request req csv\<close>: a request reaches the middleware
  \<open>checkDatabaseReady\<close>, and \<open>csv\<close> tells whether \<open>public/orders.csv\<close> exists at
  that moment. \<open>Timer i\<close>: the 100 ms timeout of task \<open>i\<close> fires. \<open>Query_Done i fault\<close>:
  the \<open>db.all\<close> call task \<open>i\<close> awaits is executed and its callback runs; \<open>fault\<close>
  makes the engine reject it. \<open>First_Pass i r\<close>: the first read of the file settles, with
  a stream error or with the header row the parser emitted, if any. \<open>Data\<close>,
  \<open>Stream_End\<close> and \<open>Stream_Error\<close> are the events of the second read.
  \<open>Stmt_Run k fault\<close>: the engine executes the oldest queued \<open>stmt.run\<close> of the
  \<open>k\<close>-th prepared statement.
\<close>

datatype event =
    Request request bool
  | Timer nat
  | Query_Done nat bool
  | First_Pass nat "string + string list option"
  | Data nat csv_record
  | Stream_End nat
  | Stream_Error nat string
  | Stmt_Run nat bool

section \<open>The engine\<close>

definition field :: "(string \<times> sqlval) list \<Rightarrow> string \<Rightarrow> sqlval" where
  "field r k = (case map_of r k of None \<Rightarrow> Null | Some v \<Rightarrow> v)"

fun exec :: "sql \<Rightarrow> database \<Rightarrow> (string + result_rows) \<times> database" where
  "exec (Drop_Table_If_Exists t) d = (Inr [], d(t := None))"
| "exec (Create_Table t cols) d =
     (case d t of
        Some tb \<Rightarrow> (Inl (''table '' @ t @ '' already exists''), d)
      | None \<Rightarrow> (Inr [], d(t \<mapsto> \<lparr>columns = cols, rows = []\<rparr>)))"
| "exec (Pragma_Table_Info t) d =
     (case d t of
        None \<Rightarrow> (Inr [], d)
      | Some tb \<Rightarrow>
          (Inr (map (\<lambda>(n, ty). [(''name'', Text n), (''type'', Text ty)]) (columns tb)), d))"
| "exec (Select_Count t) d =
     (case d t of
        None \<Rightarrow> (Inl (''no such table: '' @ t), d)
      | Some tb \<Rightarrow> (Inr [[(''count'', Integer (length (rows tb)))]], d))"
| "exec (Select_All t) d =
     (case d t of
        None \<Rightarrow> (Inl (''no such table: '' @ t), d)
      | Some tb \<Rightarrow> (Inr (map (\<lambda>r. zip (map fst (columns tb)) r) (rows tb)), d))"
| "exec (Delete_From t) d =
     (case d t of
        None \<Rightarrow> (Inl (''no such table: '' @ t), d)
      | Some tb \<Rightarrow> (Inr [], d(t \<mapsto> tb\<lparr>rows := []\<rparr>)))"
| "exec (Malformed q) d = (Inl (''near \"'' @ q @ ''\": syntax error''), d)"

definition db_all :: "sql \<Rightarrow> bool \<Rightarrow> database \<Rightarrow> (string + result_rows) \<times> database" where
  "db_all q fault d = (if fault then (Inl ''engine error'', d) else exec q d)"

definition insert_row :: "string \<Rightarrow> sqlval list \<Rightarrow> database \<Rightarrow> database" where
  "insert_row t vs d =
     (case d t of
        None \<Rightarrow> d
      | Some tb \<Rightarrow>
          if length vs = length (columns tb) then d(t \<mapsto> tb\<lparr>rows := rows tb @ [vs]\<rparr>) else d)"

text \<open>
  One queued \<open>stmt.run\<close> of statement \<open>k\<close> is executed. The source passes no callback
  to \<open>stmt.run\<close>, so whether the row went in reaches no handler.
\<close>

definition stmt_run :: "nat \<Rightarrow> bool \<Rightarrow> state \<Rightarrow> state" where
  "stmt_run k fault s =
     (if k < length (stmts s) then
        (case queue (stmts s ! k) of
           [] \<Rightarrow> s
         | vs # rest \<Rightarrow>
             s\<lparr>db := (if fault then db s else insert_row (target (stmts s ! k)) vs (db s)),
               stmts := (stmts s)[k := (stmts s ! k)\<lparr>queue := rest\<rparr>]\<rparr>)
      else s)"

section \<open>The loader\<close>

definition tableName :: string where
  "tableName = ''orders''"

definition batchSize :: nat where
  "batchSize = 1000"

definition inferSchema :: "string list \<Rightarrow> coldef list" where
  "inferSchema headerRow = map (\<lambda>header. (header, ''TEXT'')) headerRow"

definition json_schema :: "coldef list \<Rightarrow> (sqlval \<times> sqlval) list" where
  "json_schema sch = map (\<lambda>(n, ty). (Text n, Text ty)) sch"

definition info_schema :: "result_rows \<Rightarrow> (sqlval \<times> sqlval) list" where
  "info_schema tableInfo = map (\<lambda>info. (field info ''name'', field info ''type'')) tableInfo"

definition record_values :: "string list \<Rightarrow> csv_record \<Rightarrow> sqlval list" where
  "record_values headers r =
     map (\<lambda>header. case map_of r header of None \<Rightarrow> Null | Some v \<Rightarrow> Text v) headers"

text \<open>
  The body both flush sites share: prepare the INSERT, call \<open>stmt.run\<close> once per
  buffered record, finalize.
\<close>

definition insertBatch :: "string list \<Rightarrow> csv_record list \<Rightarrow> stmt" where
  "insertBatch headers batch = \<lparr>target = tableName, queue = map (record_values headers) batch\<rparr>"

function show_nat :: "nat \<Rightarrow> string" where
  "show_nat n =
     (if n < 10 then [char_of (48 + n)] else show_nat (n div 10) @ [char_of (48 + n mod 10)])"
  by pat_completeness auto
termination
  by (relation "measure id") auto

fun show_val :: "sqlval \<Rightarrow> string" where
  "show_val Null = ''undefined''"
| "show_val (Text t) = t"
| "show_val (Integer n) = show_nat n"

definition set_task :: "nat \<Rightarrow> task \<Rightarrow> state \<Rightarrow> state" where
  "set_task i t s = s\<lparr>tasks := (tasks s)[i := t]\<rparr>"

text \<open>What the caller of \<open>loadCSVData\<close> does with its result and with its exception.\<close>

fun returned :: "caller \<Rightarrow> sqlval \<Rightarrow> (sqlval \<times> sqlval) list \<Rightarrow> outcome" where
  "returned Http rowCount sch =
     Responded \<lparr>status = 200,
       body = Json_Init True
         (''Successfully loaded '' @ show_val rowCount @ '' rows into table '' @ tableName) sch\<rparr>"
| "returned Auto_Init rowCount sch = Logged"

fun thrown :: "caller \<Rightarrow> string \<Rightarrow> outcome" where
  "thrown Http msg =
     Responded \<lparr>status = 500,
       body = Json_Message False (''Error initializing database: '' @ msg)\<rparr>"
| "thrown Auto_Init msg = Logged"

text \<open>The \<open>catch\<close> of \<open>loadCSVData\<close>: reset the flag, rethrow to the caller.\<close>

definition load_failed :: "nat \<Rightarrow> caller \<Rightarrow> string \<Rightarrow> state \<Rightarrow> state" where
  "load_failed i c msg s = set_task i (c, Done (thrown c msg)) (s\<lparr>isInitializing := False\<rparr>)"

text \<open>
  \<open>loadCSVData\<close> from its first line to its first \<open>await\<close>: a caller that finds
  \<open>isInitializing\<close> set starts polling, any other caller sets it and opens the file.
\<close>

definition start_load :: "state \<Rightarrow> state" where
  "start_load s = s\<lparr>isInitializing := True, streamsOpened := Suc (streamsOpened s)\<rparr>"

definition loadCSVData :: "caller \<Rightarrow> state \<Rightarrow> state" where
  "loadCSVData c s =
     (if isInitializing s then s\<lparr>tasks := tasks s @ [(c, Polling)]\<rparr>
      else (start_load s)\<lparr>tasks := tasks s @ [(c, Read_Header)]\<rparr>)"

text \<open>The timeout fires: the \<open>while\<close> test again, then the code after the loop.\<close>

definition on_timer :: "nat \<Rightarrow> caller \<Rightarrow> state \<Rightarrow> state" where
  "on_timer i c s =
     (if isInitializing s then s
      else if isDatabaseInitialized s then set_task i (c, Info_Pragma) s
      else set_task i (c, Read_Header) (start_load s))"

definition on_first_pass :: "nat \<Rightarrow> caller \<Rightarrow> string + string list option \<Rightarrow> state \<Rightarrow> state" where
  "on_first_pass i c r s =
     (case r of
        Inl err \<Rightarrow> load_failed i c err s
      | Inr None \<Rightarrow> load_failed i c ''Failed to process CSV headers'' s
      | Inr (Some headers) \<Rightarrow>
          if headers = [] then load_failed i c ''Failed to process CSV headers'' s
          else set_task i (c, Dropping headers) s)"

text \<open>The \<open>data\<close> handler of the second pass.\<close>

definition on_data :: "nat \<Rightarrow> caller \<Rightarrow> string list \<Rightarrow> csv_record list \<Rightarrow> nat \<Rightarrow> csv_record \<Rightarrow>
    state \<Rightarrow> state" where
  "on_data i c headers batch totalRows row s =
     (let batch' = batch @ [row] in
      if length batch' \<ge> batchSize then
        set_task i (c, Inserting headers [] (totalRows + length batch'))
          (s\<lparr>stmts := stmts s @ [insertBatch headers batch']\<rparr>)
      else set_task i (c, Inserting headers batch' totalRows) s)"

text \<open>The \<open>end\<close> handler of the second pass, and the return that follows it.\<close>

definition on_end :: "nat \<Rightarrow> caller \<Rightarrow> string list \<Rightarrow> csv_record list \<Rightarrow> nat \<Rightarrow> state \<Rightarrow> state" where
  "on_end i c headers batch totalRows s =
     (let s1 = (if length batch > 0 then s\<lparr>stmts := stmts s @ [insertBatch headers batch]\<rparr> else s);
          totalRows' = (if length batch > 0 then totalRows + length batch else totalRows)
      in set_task i
           (c, Done (returned c (Integer totalRows') (json_schema (inferSchema headers))))
           (s1\<lparr>isDatabaseInitialized := True, isInitializing := False\<rparr>))"

text \<open>
  A \<open>db.all\<close> issued through \<open>runQuery\<close> completes. Which statement it is follows from
  where the task waits. In \<open>loadCSVData\<close> a rejected promise lands in the \<open>catch\<close>; in
  the route handlers it becomes the error response.
\<close>

definition init_error :: "string \<Rightarrow> response" where
  "init_error msg =
     \<lparr>status = 500, body = Json_Message False (''Error initializing database: '' @ msg)\<rparr>"

definition type_error :: string where
  "type_error = ''Cannot read properties of undefined (reading count)''"

definition on_query_done :: "nat \<Rightarrow> caller \<Rightarrow> pc \<Rightarrow> bool \<Rightarrow> state \<Rightarrow> state" where
  "on_query_done i c p fault s =
     (case p of
        Info_Pragma \<Rightarrow>
          (case db_all (Pragma_Table_Info tableName) fault (db s) of
             (Inl err, d) \<Rightarrow> load_failed i c err s
           | (Inr tableInfo, d) \<Rightarrow> set_task i (c, Info_Count tableInfo) s)
      | Info_Count tableInfo \<Rightarrow>
          (case db_all (Select_Count tableName) fault (db s) of
             (Inl err, d) \<Rightarrow> load_failed i c err s
           | (Inr [], d) \<Rightarrow> load_failed i c type_error s
           | (Inr (r # rs), d) \<Rightarrow>
               set_task i (c, Done (returned c (field r ''count'') (info_schema tableInfo))) s)
      | Dropping headers \<Rightarrow>
          (case db_all (Drop_Table_If_Exists tableName) fault (db s) of
             (Inl err, d) \<Rightarrow> load_failed i c err s
           | (Inr res, d) \<Rightarrow> set_task i (c, Creating headers) (s\<lparr>db := d\<rparr>))
      | Creating headers \<Rightarrow>
          (case db_all (Create_Table tableName (inferSchema headers)) fault (db s) of
             (Inl err, d) \<Rightarrow> load_failed i c err s
           | (Inr res, d) \<Rightarrow>
               set_task i (c, Inserting headers [] 0)
                 (s\<lparr>db := d, streamsOpened := Suc (streamsOpened s)\<rparr>))
      | Fast_Pragma \<Rightarrow>
          (case db_all (Pragma_Table_Info ''orders'') fault (db s) of
             (Inl err, d) \<Rightarrow> set_task i (c, Done (Responded (init_error err))) s
           | (Inr tableInfo, d) \<Rightarrow> set_task i (c, Fast_Count tableInfo) s)
      | Fast_Count tableInfo \<Rightarrow>
          (case db_all (Select_Count ''orders'') fault (db s) of
             (Inl err, d) \<Rightarrow> set_task i (c, Done (Responded (init_error err))) s
           | (Inr [], d) \<Rightarrow> set_task i (c, Done (Responded (init_error type_error))) s
           | (Inr (r # rs), d) \<Rightarrow>
               set_task i
                 (c, Done (Responded \<lparr>status = 200,
                    body = Json_Init True
                      (''Database already initialized with '' @ show_val (field r ''count'')
                         @ '' rows in table orders'')
                      (info_schema tableInfo)\<rparr>)) s)
      | Querying q \<Rightarrow>
          (case db_all q fault (db s) of
             (Inl err, d) \<Rightarrow>
               set_task i
                 (c, Done (Responded \<lparr>status = 400,
                    body = Json_Message False (''Error executing query: '' @ err)\<rparr>)) s
           | (Inr res, d) \<Rightarrow>
               set_task i
                 (c, Done (Responded \<lparr>status = 200,
                    body = Json_Data True res
                      (''Query executed successfully. '' @ show_nat (length res)
                         @ '' rows returned.'')\<rparr>))
                 (s\<lparr>db := d\<rparr>))
      | Schema_Query t \<Rightarrow>
          (case db_all (Pragma_Table_Info t) fault (db s) of
             (Inl err, d) \<Rightarrow>
               set_task i
                 (c, Done (Responded \<lparr>status = 500,
                    body = Json_Message False (''Error fetching schema: '' @ err)\<rparr>)) s
           | (Inr [], d) \<Rightarrow>
               set_task i
                 (c, Done (Responded \<lparr>status = 404,
                    body = Json_Message False (''Table '' @ t @ '' not found'')\<rparr>)) s
           | (Inr (r # rs), d) \<Rightarrow>
               set_task i (c, Done (Responded \<lparr>status = 200,
                 body = Json_Schema True (info_schema (r # rs))\<rparr>)) s)
      | _ \<Rightarrow> s)"

section \<open>The request gate and the routes\<close>

definition respond :: "response \<Rightarrow> state \<Rightarrow> state" where
  "respond r s = s\<lparr>tasks := tasks s @ [(Http, Done (Responded r))]\<rparr>"

definition suspend :: "pc \<Rightarrow> state \<Rightarrow> state" where
  "suspend p s = s\<lparr>tasks := tasks s @ [(Http, p)]\<rparr>"

text \<open>\<open>checkDatabaseReady\<close>: \<open>None\<close> is \<open>next()\<close>, \<open>Some r\<close> the response it sends.\<close>

definition checkDatabaseReady :: "request \<Rightarrow> state \<Rightarrow> response option" where
  "checkDatabaseReady req s =
     (if path req = ''/api/init'' \<or> path req = ''/health'' then None
      else if \<not> isDatabaseInitialized s then
        Some \<lparr>status = 503,
          body = Json_Message False
            ''Database not initialized. Please call /api/init endpoint first.''\<rparr>
      else None)"

definition api_init :: "bool \<Rightarrow> state \<Rightarrow> state" where
  "api_init csv s =
     (if isDatabaseInitialized s \<and> \<not> isInitializing s then suspend Fast_Pragma s
      else if \<not> csv then
        respond \<lparr>status = 404,
          body = Json_Message False ''CSV file not found. Please upload the file first.''\<rparr> s
      else loadCSVData Http s)"

definition api_query :: "sql option \<Rightarrow> state \<Rightarrow> state" where
  "api_query q s =
     (case q of
        None \<Rightarrow> respond \<lparr>status = 400, body = Json_Message False ''Query is required''\<rparr> s
      | Some text \<Rightarrow>
          if text = Malformed [] then
            respond \<lparr>status = 400, body = Json_Message False ''Query is required''\<rparr> s
          else suspend (Querying text) s)"

definition schema_param :: "string \<Rightarrow> string option" where
  "schema_param p =
     (if take 12 p = ''/api/schema/'' \<and> drop 12 p \<noteq> [] \<and> CHR ''/'' \<notin> set (drop 12 p)
      then Some (drop 12 p) else None)"

definition route :: "request \<Rightarrow> bool \<Rightarrow> state \<Rightarrow> state" where
  "route req csv s =
     (if http_method req = GET \<and> path req = ''/'' then
        respond \<lparr>status = 200, body = Plain_Text ''backend is running !''\<rparr> s
      else if http_method req = POST \<and> path req = ''/api/init'' then api_init csv s
      else if http_method req = POST \<and> path req = ''/api/query'' then api_query (query req) s
      else if http_method req = GET \<and> schema_param (path req) \<noteq> None then
        suspend (Schema_Query (the (schema_param (path req)))) s
      else if http_method req = GET \<and> path req = ''/health'' then
        respond \<lparr>status = 200,
          body = Json_Health (isDatabaseInitialized s) (isInitializing s)\<rparr> s
      else respond \<lparr>status = 404, body = No_Route\<rparr> s)"

definition on_request :: "request \<Rightarrow> bool \<Rightarrow> state \<Rightarrow> state" where
  "on_request req csv s =
     (case checkDatabaseReady req s of
        Some r \<Rightarrow> respond r s
      | None \<Rightarrow> route req csv s)"

section \<open>The machine\<close>

definition task_at :: "nat \<Rightarrow> state \<Rightarrow> task option" where
  "task_at i s = (if i < length (tasks s) then Some (tasks s ! i) else None)"

fun step :: "event \<Rightarrow> state \<Rightarrow> state" where
  "step (Request req csv) s = on_request req csv s"
| "step (Timer i) s =
     (case task_at i s of Some (c, Polling) \<Rightarrow> on_timer i c s | _ \<Rightarrow> s)"
| "step (Query_Done i fault) s =
     (case task_at i s of Some (c, p) \<Rightarrow> on_query_done i c p fault s | None \<Rightarrow> s)"
| "step (First_Pass i r) s =
     (case task_at i s of Some (c, Read_Header) \<Rightarrow> on_first_pass i c r s | _ \<Rightarrow> s)"
| "step (Data i row) s =
     (case task_at i s of
        Some (c, Inserting headers batch totalRows) \<Rightarrow> on_data i c headers batch totalRows row s
      | _ \<Rightarrow> s)"
| "step (Stream_End i) s =
     (case task_at i s of
        Some (c, Inserting headers batch totalRows) \<Rightarrow> on_end i c headers batch totalRows s
      | _ \<Rightarrow> s)"
| "step (Stream_Error i err) s =
     (case task_at i s of
        Some (c, Inserting headers batch totalRows) \<Rightarrow> load_failed i c err s
      | _ \<Rightarrow> s)"
| "step (Stmt_Run k fault) s = stmt_run k fault s"

primrec run :: "event list \<Rightarrow> state \<Rightarrow> state" where
  "run [] s = s"
| "run (e # es) s = run es (step e s)"

definition pristine :: state where
  "pristine =
     \<lparr>isDatabaseInitialized = False, isInitializing = False, db = Map.empty, stmts = [],
      tasks = [], streamsOpened = 0\<rparr>"

text \<open>
  The process starts: the module's last block calls \<open>loadCSVData\<close> when the CSV file is
  there, before any request is served.
\<close>

definition boot :: "bool \<Rightarrow> state" where
  "boot csv = (if csv then loadCSVData Auto_Init pristine else pristine)"

fun loading :: "task \<Rightarrow> bool" where
  "loading (c, Read_Header) = True"
| "loading (c, Dropping headers) = True"
| "loading (c, Creating headers) = True"
| "loading (c, Inserting headers batch totalRows) = True"
| "loading (c, p) = False"

definition loaders :: "state \<Rightarrow> nat" where
  "loaders s = length (filter loading (tasks s))"

text \<open>
  The invariant of the coordination: at most one task is inside the loading part of
  \<open>loadCSVData\<close>; while one is, \<open>isInitializing\<close> is set and no load has succeeded yet;
  and a caller that left the polling loop for the table information did so after a
  successful load.
\<close>

fun info_wait :: "task \<Rightarrow> bool" where
  "info_wait (c, Info_Pragma) = True"
| "info_wait (c, Info_Count tableInfo) = True"
| "info_wait (c, p) = False"

definition coordinated :: "state \<Rightarrow> bool" where
  "coordinated s =
     (loaders s \<le> 1
      \<and> (0 < loaders s \<longrightarrow> isInitializing s \<and> \<not> isDatabaseInitialized s)
      \<and> (list_ex info_wait (tasks s) \<longrightarrow> isDatabaseInitialized s))"

fun is_end :: "event \<Rightarrow> bool" where
  "is_end (Stream_End i) = True"
| "is_end e = False"


section \<open>Requests and traces used below\<close>

definition init_request :: request where
  "init_request = \<lparr>http_method = POST, path = ''/api/init'', query = None\<rparr>"

definition query_request :: "sql \<Rightarrow> request" where
  "query_request q = \<lparr>http_method = POST, path = ''/api/query'', query = Some q\<rparr>"


definition small_load :: "event list" where
  "small_load =
     [Request init_request True, First_Pass 0 (Inr (Some [''a'', ''b''])),
      Query_Done 0 False, Query_Done 0 False,
      Data 0 [(''a'', ''1''), (''b'', ''x'')], Data 0 [(''a'', ''2''), (''b'', ''y'')],
      Stream_End 0]"

text \<open>
  The events of one load served alone: the request, the first pass, DROP, CREATE, one
  \<open>data\<close> event per record and \<open>end\<close>. \<open>table_created\<close> is the state after CREATE.
\<close>

definition load_events :: "string list \<Rightarrow> csv_record list \<Rightarrow> event list" where
  "load_events headers records =
     [Request init_request True, First_Pass 0 (Inr (Some headers)),
      Query_Done 0 False, Query_Done 0 False]
     @ map (Data 0) records @ [Stream_End 0]"

definition table_created :: "string list \<Rightarrow> state" where
  "table_created headers =
     \<lparr>isDatabaseInitialized = False, isInitializing = True,
      db = [tableName \<mapsto> \<lparr>columns = inferSchema headers, rows = []\<rparr>],
      stmts = [], tasks = [(Http, Inserting headers [] 0)], streamsOpened = 2\<rparr>"

definition drained_load :: "event list" where
  "drained_load = small_load @ [Stmt_Run 0 False, Stmt_Run 0 False]"

text \<open>
  A file whose only header field is \<open>x, y\<close> (quoted in the file) and whose only record
  is \<open>1\<close>. The source pastes the field into \<open>CREATE TABLE orders (x, y TEXT)\<close>, which
  SQLite reads as two columns, and prepares an INSERT with one placeholder, which
  SQLite rejects. The engine model keeps schemas structured, so the rejection is the
  fault of the \<open>Stmt_Run\<close> event.
\<close>

definition comma_header_load :: "event list" where
  "comma_header_load = load_events [''x, y''] [[(''x, y'', ''1'')]] @ [Stmt_Run 0 True]"






section \<open>Projections of the handlers\<close>


lemma set_task_sel [simp]:
  "isDatabaseInitialized (set_task i t s) = isDatabaseInitialized s"
  "isInitializing (set_task i t s) = isInitializing s"
  "db (set_task i t s) = db s"
  "stmts (set_task i t s) = stmts s"
  "streamsOpened (set_task i t s) = streamsOpened s"
  "tasks (set_task i t s) = (tasks s)[i := t]"
  by (simp_all add: set_task_def)

lemma load_failed_sel [simp]:
  "isDatabaseInitialized (load_failed i c msg s) = isDatabaseInitialized s"
  "isInitializing (load_failed i c msg s) = False"
  "db (load_failed i c msg s) = db s"
  "stmts (load_failed i c msg s) = stmts s"
  "streamsOpened (load_failed i c msg s) = streamsOpened s"
  "tasks (load_failed i c msg s) = (tasks s)[i := (c, Done (thrown c msg))]"
  by (simp_all add: load_failed_def)

lemma respond_sel [simp]:
  "isDatabaseInitialized (respond r s) = isDatabaseInitialized s"
  "isInitializing (respond r s) = isInitializing s"
  "db (respond r s) = db s"
  "stmts (respond r s) = stmts s"
  "streamsOpened (respond r s) = streamsOpened s"
  "tasks (respond r s) = tasks s @ [(Http, Done (Responded r))]"
  by (simp_all add: respond_def)

lemma suspend_sel [simp]:
  "isDatabaseInitialized (suspend p s) = isDatabaseInitialized s"
  "isInitializing (suspend p s) = isInitializing s"
  "db (suspend p s) = db s"
  "stmts (suspend p s) = stmts s"
  "streamsOpened (suspend p s) = streamsOpened s"
  "tasks (suspend p s) = tasks s @ [(Http, p)]"
  by (simp_all add: suspend_def)

lemma loadCSVData_sel [simp]:
  "isDatabaseInitialized (loadCSVData c s) = isDatabaseInitialized s"
  "isInitializing (loadCSVData c s) = True"
  "db (loadCSVData c s) = db s"
  "stmts (loadCSVData c s) = stmts s"
  "tasks (loadCSVData c s) = tasks s @ [(c, if isInitializing s then Polling else Read_Header)]"
  by (simp_all add: loadCSVData_def start_load_def)

lemma stmt_run_sel [simp]:
  "isDatabaseInitialized (stmt_run k f s) = isDatabaseInitialized s"
  "isInitializing (stmt_run k f s) = isInitializing s"
  "tasks (stmt_run k f s) = tasks s"
  "streamsOpened (stmt_run k f s) = streamsOpened s"
  by (simp_all add: stmt_run_def split: list.splits)

lemma on_query_done_flag [simp]:
  "isDatabaseInitialized (on_query_done i c p f s) = isDatabaseInitialized s"
  by (simp add: on_query_done_def split: pc.splits prod.splits sum.splits list.splits)

lemma on_timer_flag [simp]:
  "isDatabaseInitialized (on_timer i c s) = isDatabaseInitialized s"
  by (simp add: on_timer_def start_load_def)

lemma on_first_pass_flag [simp]:
  "isDatabaseInitialized (on_first_pass i c r s) = isDatabaseInitialized s"
  by (simp add: on_first_pass_def split: sum.splits option.splits)

lemma on_data_flag [simp]:
  "isDatabaseInitialized (on_data i c hs b n r s) = isDatabaseInitialized s"
  by (simp add: on_data_def Let_def)

lemma on_end_flag [simp]:
  "isDatabaseInitialized (on_end i c hs b n s) = True"
  by (simp add: on_end_def Let_def)

lemma on_request_flag [simp]:
  "isDatabaseInitialized (on_request req csv s) = isDatabaseInitialized s"
  by (simp add: on_request_def route_def api_init_def api_query_def
      split: option.splits)

lemma step_keeps_ready:
  "isDatabaseInitialized s \<Longrightarrow> isDatabaseInitialized (step e s)"
  by (cases e) (simp_all split: option.splits prod.splits pc.splits)

lemma run_keeps_ready:
  "isDatabaseInitialized s \<Longrightarrow> isDatabaseInitialized (run es s)"
  by (induction es arbitrary: s) (simp_all add: step_keeps_ready)

lemma step_not_ready:
  "\<not> isDatabaseInitialized s \<Longrightarrow> \<not> is_end e \<Longrightarrow> \<not> isDatabaseInitialized (step e s)"
  by (cases e) (simp_all split: option.splits prod.splits pc.splits)

lemma run_not_ready:
  "\<not> isDatabaseInitialized s \<Longrightarrow> list_all (\<lambda>e. \<not> is_end e) es \<Longrightarrow> \<not> isDatabaseInitialized (run es s)"
  by (induction es arbitrary: s) (simp_all add: step_not_ready)


lemma filter_update_count:
  "i < length xs \<Longrightarrow>
   length (filter P (xs[i := t])) + (if P (xs ! i) then 1 else 0)
     = length (filter P xs) + (if P t then 1 else 0)"
proof (induction xs arbitrary: i)
  case Nil
  then show ?case by simp
next
  case (Cons x xs)
  then show ?case by (cases i) auto
qed

lemma loaders_update:
  "i < length (tasks s) \<Longrightarrow> tasks s' = (tasks s)[i := t] \<Longrightarrow>
   loaders s' + (if loading (tasks s ! i) then 1 else 0) = loaders s + (if loading t then 1 else 0)"
  unfolding loaders_def by (simp add: filter_update_count)

lemma list_ex_update:
  "list_ex P (xs[i := t]) \<Longrightarrow> P t \<or> list_ex P xs"
  using set_update_subset_insert [of xs i t] by (auto simp: list_ex_iff)

lemma loading_nth_positive:
  "i < length (tasks s) \<Longrightarrow> loading (tasks s ! i) \<Longrightarrow> 0 < loaders s"
  unfolding loaders_def by (metis filter_empty_conv length_greater_0_conv nth_mem)

lemma info_nth_ex:
  "i < length (tasks s) \<Longrightarrow> info_wait (tasks s ! i) \<Longrightarrow> list_ex info_wait (tasks s)"
  by (auto simp: list_ex_iff)

lemma coordinated_update:
  assumes "coordinated s" and "i < length (tasks s)"
    and "tasks s' = (tasks s)[i := t]"
    and "loading t \<longrightarrow> loading (tasks s ! i) \<or> loaders s = 0"
    and "loading t \<longrightarrow> isInitializing s' \<and> \<not> isDatabaseInitialized s'"
    and "info_wait t \<longrightarrow> isDatabaseInitialized s'"
    and "isDatabaseInitialized s \<longrightarrow> isDatabaseInitialized s'"
    and "isDatabaseInitialized s' \<and> \<not> isDatabaseInitialized s \<longrightarrow> loading (tasks s ! i) \<and> \<not> loading t"
    and "isInitializing s \<and> \<not> isInitializing s' \<longrightarrow> (loading (tasks s ! i) \<and> \<not> loading t) \<or> loaders s = 0"
  shows "coordinated s'"
proof -
  have eq: "loaders s' + (if loading (tasks s ! i) then 1 else 0) = loaders s + (if loading t then 1 else 0)"
    using assms(2,3) by (rule loaders_update)
  have pos: "loading (tasks s ! i) \<Longrightarrow> 0 < loaders s"
    using assms(2) by (rule loading_nth_positive)
  have ex: "list_ex info_wait (tasks s') \<Longrightarrow> info_wait t \<or> list_ex info_wait (tasks s)"
    using assms(3) list_ex_update by metis
  have c: "loaders s \<le> 1" "0 < loaders s \<longrightarrow> isInitializing s \<and> \<not> isDatabaseInitialized s"
    "list_ex info_wait (tasks s) \<longrightarrow> isDatabaseInitialized s"
    using assms(1) by (simp_all add: coordinated_def)
  have 1: "loaders s' \<le> 1"
    using eq pos c(1) assms(4) by (auto split: if_splits)
  have 2: "0 < loaders s' \<longrightarrow> isInitializing s' \<and> \<not> isDatabaseInitialized s'"
  proof (cases "loading t")
    case True
    then show ?thesis using assms(5) by simp
  next
    case False
    show ?thesis
    proof
      assume p: "0 < loaders s'"
      have old: "\<not> loading (tasks s ! i)"
      proof
        assume "loading (tasks s ! i)"
        then have "loaders s' + 1 = loaders s" using eq False by simp
        then show False using p c(1) by simp
      qed
      then have "loaders s' = loaders s" using eq False by simp
      then have q: "0 < loaders s" using p by simp
      then have "isInitializing s" "\<not> isDatabaseInitialized s" using c(2) by simp_all
      then show "isInitializing s' \<and> \<not> isDatabaseInitialized s'"
        using assms(8,9) old q by auto
    qed
  qed
  have 3: "list_ex info_wait (tasks s') \<longrightarrow> isDatabaseInitialized s'"
    using ex c(3) assms(6,7) by auto
  show ?thesis using 1 2 3 by (simp add: coordinated_def)
qed


lemma coordinated_idle:
  "coordinated s \<Longrightarrow> \<not> isInitializing s \<Longrightarrow> loaders s = 0"
  by (auto simp: coordinated_def)

lemma coordinated_ready:
  "coordinated s \<Longrightarrow> isDatabaseInitialized s \<Longrightarrow> loaders s = 0"
  by (auto simp: coordinated_def)

lemma coordinated_info:
  "coordinated s \<Longrightarrow> i < length (tasks s) \<Longrightarrow> info_wait (tasks s ! i) \<Longrightarrow>
   isDatabaseInitialized s"
  using info_nth_ex by (auto simp: coordinated_def)

lemma coordinated_append:
  assumes "coordinated s" and "tasks s' = tasks s @ [t]" and "\<not> info_wait t"
    and "isDatabaseInitialized s' = isDatabaseInitialized s"
    and "loading t \<longrightarrow> loaders s = 0 \<and> isInitializing s' \<and> \<not> isDatabaseInitialized s'"
    and "\<not> loading t \<longrightarrow> isInitializing s' = isInitializing s"
  shows "coordinated s'"
proof -
  have eq: "loaders s' = loaders s + (if loading t then 1 else 0)"
    using assms(2) by (simp add: loaders_def)
  have ex: "list_ex info_wait (tasks s') = list_ex info_wait (tasks s)"
    using assms(2,3) by simp
  show ?thesis
    using assms(1,4,5,6) eq ex unfolding coordinated_def by (cases "loading t") auto
qed

lemma coordinated_on_request:
  assumes "coordinated s"
  shows "coordinated (on_request req csv s)"
proof -
  have a: "coordinated (respond r s)" for r
    using assms by (rule coordinated_append [where t = "(Http, Done (Responded r))"]) simp_all
  have b: "\<not> loading (Http, p) \<Longrightarrow> \<not> info_wait (Http, p) \<Longrightarrow> coordinated (suspend p s)" for p
    using assms by (rule coordinated_append [where t = "(Http, p)"]) simp_all
  have c: "\<not> (isDatabaseInitialized s \<and> \<not> isInitializing s) \<Longrightarrow> coordinated (loadCSVData Http s)"
    using assms
    by (rule coordinated_append [where t = "(Http, if isInitializing s then Polling else Read_Header)"])
       (use assms in \<open>auto simp: coordinated_idle\<close>)
  have d: "coordinated (api_init csv s)"
    using a b c by (simp add: api_init_def)
  have e: "coordinated (api_query q s)" for q
    using a b by (simp add: api_query_def split: option.splits)
  have f: "coordinated (route req csv s)"
    using a b d e by (simp add: route_def)
  show ?thesis using a f by (simp add: on_request_def split: option.splits)
qed

lemma coordinated_on_timer:
  assumes "coordinated s" and "i < length (tasks s)" and "tasks s ! i = (c, Polling)"
  shows "coordinated (on_timer i c s)"
proof -
  have 1: "isDatabaseInitialized s \<Longrightarrow> coordinated (set_task i (c, Info_Pragma) s)"
    using assms(1,2) by (rule coordinated_update [where t = "(c, Info_Pragma)"]) (simp_all add: assms(3))
  have 2: "\<not> isInitializing s \<Longrightarrow> \<not> isDatabaseInitialized s \<Longrightarrow>
      coordinated (set_task i (c, Read_Header) (start_load s))"
    using assms(1,2)
    by (rule coordinated_update [where t = "(c, Read_Header)"])
       (use assms in \<open>simp_all add: start_load_def set_task_def coordinated_idle\<close>)
  show ?thesis using assms(1) 1 2 by (simp add: on_timer_def)
qed

lemma coordinated_load_failed:
  assumes "coordinated s" and "i < length (tasks s)"
    and "loading (tasks s ! i) \<or> info_wait (tasks s ! i)"
  shows "coordinated (load_failed i c msg s)"
  using assms(1,2)
proof (rule coordinated_update)
  show "tasks (load_failed i c msg s) = (tasks s)[i := (c, Done (thrown c msg))]" by simp
  show "isInitializing s \<and> \<not> isInitializing (load_failed i c msg s) \<longrightarrow>
      loading (tasks s ! i) \<and> \<not> loading (c, Done (thrown c msg)) \<or> loaders s = 0"
    using assms coordinated_info coordinated_ready by auto
qed simp_all

lemma coordinated_on_first_pass:
  assumes "coordinated s" and "i < length (tasks s)" and "tasks s ! i = (c, Read_Header)"
  shows "coordinated (on_first_pass i c r s)"
proof -
  have 1: "coordinated (load_failed i c msg s)" for msg
    using assms by (simp add: coordinated_load_failed)
  have on: "0 < loaders s" using assms(2,3) loading_nth_positive [of i s] by simp
  have 2: "coordinated (set_task i (c, Dropping hs) s)" for hs
    using assms(1,2)
    by (rule coordinated_update [where t = "(c, Dropping hs)"])
       (use assms on in \<open>auto simp: coordinated_def\<close>)
  show ?thesis using 1 2 by (simp add: on_first_pass_def split: sum.splits option.splits)
qed


lemma loading_not_info: "loading t \<Longrightarrow> \<not> info_wait t"
proof -
  obtain c p where "t = (c, p)" by (cases t)
  then show "loading t \<Longrightarrow> \<not> info_wait t" by (cases p) simp_all
qed

lemma coordinated_advance:
  assumes "coordinated s" and "i < length (tasks s)" and "loading (tasks s ! i)"
    and "loading t" and "tasks s' = (tasks s)[i := t]"
    and "isInitializing s' = isInitializing s"
    and "isDatabaseInitialized s' = isDatabaseInitialized s"
  shows "coordinated s'"
proof -
  have on: "0 < loaders s" using assms(2,3) by (rule loading_nth_positive)
  show ?thesis
    using assms(1,2)
    by (rule coordinated_update [where t = t])
       (use assms on loading_not_info [of t] in \<open>auto simp: coordinated_def\<close>)
qed

lemma coordinated_on_data:
  assumes "coordinated s" and "i < length (tasks s)"
    and "tasks s ! i = (c, Inserting hs b n)"
  shows "coordinated (on_data i c hs b n r s)"
proof -
  have l: "loading (tasks s ! i)" using assms(3) by simp
  have 1: "coordinated (set_task i (c, Inserting hs b' n') (s\<lparr>stmts := q\<rparr>))" for b' n' q
    using assms(1,2) l
    by (rule coordinated_advance [where t = "(c, Inserting hs b' n')"])
       (simp_all add: set_task_def)
  have 2: "coordinated (set_task i (c, Inserting hs b' n') s)" for b' n'
    using assms(1,2) l
    by (rule coordinated_advance [where t = "(c, Inserting hs b' n')"]) simp_all
  show ?thesis using 1 2 by (simp add: on_data_def Let_def)
qed

lemma coordinated_finish:
  assumes "coordinated s" and "i < length (tasks s)" and "loading (tasks s ! i)"
    and "tasks s' = (tasks s)[i := (c, Done out)]"
    and "isDatabaseInitialized s'" and "\<not> isInitializing s'"
  shows "coordinated s'"
  using assms(1,2)
  by (rule coordinated_update [where t = "(c, Done out)"]) (use assms in simp_all)

lemma coordinated_on_end:
  assumes "coordinated s" and "i < length (tasks s)"
    and "tasks s ! i = (c, Inserting hs b n)"
  shows "coordinated (on_end i c hs b n s)"
proof -
  have l: "loading (tasks s ! i)" using assms(3) by simp
  show ?thesis
    using assms(1,2) l
    by (rule coordinated_finish
         [where c = c and out = "returned c (Integer (if 0 < length b then n + length b else n))
                         (json_schema (inferSchema hs))"])
       (simp_all add: on_end_def Let_def set_task_def)
qed

lemma coordinated_stmt_run:
  "coordinated s \<Longrightarrow> coordinated (stmt_run k f s)"
  by (simp add: coordinated_def loaders_def)

lemma coordinated_on_query_done:
  assumes "coordinated s" and "i < length (tasks s)" and "tasks s ! i = (c, p)"
  shows "coordinated (on_query_done i c p f s)"
proof -
  have fail: "loading (c, p) \<or> info_wait (c, p) \<Longrightarrow> coordinated (load_failed i c msg s)" for msg
    using assms by (simp add: coordinated_load_failed)
  have adv: "loading (c, p) \<Longrightarrow> loading (c, p') \<Longrightarrow> coordinated (set_task i (c, p') (s\<lparr>db := d\<rparr>))"
    for p' d
    using assms(1,2)
    by (rule coordinated_advance [where t = "(c, p')"]) (simp_all add: assms(3) set_task_def)
  have adv2: "loading (c, p) \<Longrightarrow> loading (c, p') \<Longrightarrow>
      coordinated (set_task i (c, p') (s\<lparr>db := d, streamsOpened := k\<rparr>))" for p' d k
    using assms(1,2)
    by (rule coordinated_advance [where t = "(c, p')"]) (simp_all add: assms(3) set_task_def)
  have info: "info_wait (c, p) \<Longrightarrow> coordinated (set_task i (c, p') s)"
    if "\<not> loading (c, p')" for p'
    using assms(1,2)
    by (rule coordinated_update [where t = "(c, p')"])
       (use assms that coordinated_info [of s i] in auto)
  have other: "\<not> loading (c, p) \<Longrightarrow> coordinated (set_task i (c, p') (s\<lparr>db := d\<rparr>))"
    if "\<not> loading (c, p')" "\<not> info_wait (c, p')" for p' d
    using assms(1,2)
    by (rule coordinated_update [where t = "(c, p')"])
       (use assms that in \<open>auto simp: set_task_def\<close>)
  have other': "\<not> loading (c, p) \<Longrightarrow> coordinated (set_task i (c, p') s)"
    if "\<not> loading (c, p')" "\<not> info_wait (c, p')" for p'
    using other [OF that, of "db s"] by simp
  show ?thesis
  proof (cases p)
    case Info_Pragma
    then show ?thesis using fail info
      by (simp add: on_query_done_def split: prod.splits sum.splits)
  next
    case (Info_Count ti)
    then show ?thesis using fail info
      by (simp add: on_query_done_def split: prod.splits sum.splits list.splits)
  next
    case (Dropping hs)
    then show ?thesis using fail adv
      by (simp add: on_query_done_def split: prod.splits sum.splits)
  next
    case (Creating hs)
    then show ?thesis using fail adv2
      by (simp add: on_query_done_def split: prod.splits sum.splits)
  next
    case Fast_Pragma
    then show ?thesis using other'
      by (simp add: on_query_done_def split: prod.splits sum.splits)
  next
    case (Fast_Count ti)
    then show ?thesis using other'
      by (simp add: on_query_done_def split: prod.splits sum.splits list.splits)
  next
    case (Querying q)
    then show ?thesis using other other'
      by (simp add: on_query_done_def split: prod.splits sum.splits)
  next
    case (Schema_Query t)
    then show ?thesis using other'
      by (simp add: on_query_done_def split: prod.splits sum.splits list.splits)
  qed (use assms(1) in \<open>simp_all add: on_query_done_def\<close>)
qed

lemma task_at_Some:
  "task_at i s = Some t \<longleftrightarrow> i < length (tasks s) \<and> tasks s ! i = t"
  by (auto simp: task_at_def)

lemma coordinated_step:
  assumes "coordinated s"
  shows "coordinated (step e s)"
proof (cases e)
  case (Request req csv)
  then show ?thesis using assms by (simp add: coordinated_on_request)
next
  case (Timer i)
  then show ?thesis using assms
    by (auto simp: task_at_Some coordinated_on_timer split: option.splits pc.splits)
next
  case (Query_Done i f)
  then show ?thesis using assms
    by (auto simp: task_at_Some coordinated_on_query_done split: option.splits)
next
  case (First_Pass i r)
  then show ?thesis using assms
    by (auto simp: task_at_Some coordinated_on_first_pass split: option.splits pc.splits)
next
  case (Data i row)
  then show ?thesis using assms
    by (auto simp: task_at_Some coordinated_on_data split: option.splits pc.splits)
next
  case (Stream_End i)
  then show ?thesis using assms
    by (auto simp: task_at_Some coordinated_on_end split: option.splits pc.splits)
next
  case (Stream_Error i err)
  then show ?thesis using assms
    by (auto simp: task_at_Some coordinated_load_failed split: option.splits pc.splits)
next
  case (Stmt_Run k f)
  then show ?thesis using assms by (simp add: coordinated_stmt_run)
qed

lemma coordinated_run:
  "coordinated s \<Longrightarrow> coordinated (run es s)"
  by (induction es arbitrary: s) (simp_all add: coordinated_step)

lemma coordinated_boot: "coordinated (boot csv)"
  by (simp add: boot_def pristine_def coordinated_def loaders_def loadCSVData_def start_load_def)


lemma run_append: "run (es @ es') s = run es' (run es s)"
  by (induction es arbitrary: s) simp_all

lemma init_request_claims:
  "\<not> isInitializing s \<Longrightarrow> \<not> isDatabaseInitialized s \<Longrightarrow>
   step (Request init_request True) s = (start_load s)\<lparr>tasks := tasks s @ [(Http, Read_Header)]\<rparr>"
  by (simp add: on_request_def checkDatabaseReady_def init_request_def route_def api_init_def
      loadCSVData_def)

lemma init_request_waits:
  "isInitializing s \<Longrightarrow>
   step (Request init_request True) s = s\<lparr>tasks := tasks s @ [(Http, Polling)]\<rparr>"
  by (simp add: on_request_def checkDatabaseReady_def init_request_def route_def api_init_def
      loadCSVData_def)

lemma followers_wait:
  "isInitializing s \<Longrightarrow>
   run (replicate k (Request init_request True)) s
     = s\<lparr>tasks := tasks s @ replicate k (Http, Polling)\<rparr>"
proof (induction k arbitrary: s)
  case 0
  then show ?case by simp
next
  case (Suc k)
  have "run (replicate (Suc k) (Request init_request True)) s
      = run (replicate k (Request init_request True)) (s\<lparr>tasks := tasks s @ [(Http, Polling)]\<rparr>)"
    using Suc.prems by (simp add: init_request_waits del: step.simps)
  also have "\<dots> = s\<lparr>tasks := tasks s @ replicate (Suc k) (Http, Polling)\<rparr>"
    using Suc.prems by (subst Suc.IH) simp_all
  finally show ?case .
qed

lemma callers_from_not_started:
  assumes "\<not> isInitializing s" and "\<not> isDatabaseInitialized s"
  shows "run (replicate (Suc k) (Request init_request True)) s
     = (start_load s)\<lparr>tasks := tasks s @ (Http, Read_Header) # replicate k (Http, Polling)\<rparr>"
proof -
  have "run (replicate (Suc k) (Request init_request True)) s
      = run (replicate k (Request init_request True))
          ((start_load s)\<lparr>tasks := tasks s @ [(Http, Read_Header)]\<rparr>)"
    using assms by (simp add: init_request_claims del: step.simps)
  also have "\<dots> = (start_load s)\<lparr>tasks := tasks s @ (Http, Read_Header) # replicate k (Http, Polling)\<rparr>"
    by (subst followers_wait) (simp_all add: start_load_def)
  finally show ?thesis .
qed

lemma filter_loading_polling: "filter loading (replicate k (c, Polling)) = []"
  by (induction k) simp_all

section \<open>C1: one load at a time\<close>

text \<open>
  C1. In a state reached from the start of the process in which neither flag is set
  (NotStarted), let \<open>k + 1\<close> callers of \<open>/api/init\<close> arrive while the file is there.
  Exactly one of them enters the loader and sets \<open>isInitializing\<close>; the other \<open>k\<close> wait
  in the polling loop. No load was running before, exactly one is running after, and
  whatever happens later, at most one task is ever inside the loader.
\<close>

theorem one_load_at_a_time:
  assumes "s = run es (boot csv)"
    and "\<not> isInitializing s" and "\<not> isDatabaseInitialized s"
  shows "tasks (run (replicate (Suc k) (Request init_request True)) s)
           = tasks s @ (Http, Read_Header) # replicate k (Http, Polling)
       \<and> isInitializing (run (replicate (Suc k) (Request init_request True)) s)
       \<and> loaders s = 0
       \<and> loaders (run (replicate (Suc k) (Request init_request True)) s) = 1
       \<and> loaders (run es' (run (replicate (Suc k) (Request init_request True)) s)) \<le> 1"
proof -
  let ?s' = "run (replicate (Suc k) (Request init_request True)) s"
  have c: "coordinated s"
    using assms(1) coordinated_boot coordinated_run by simp
  then have z: "loaders s = 0" using assms(2) by (rule coordinated_idle)
  have eq: "?s' = (start_load s)\<lparr>tasks := tasks s @ (Http, Read_Header) # replicate k (Http, Polling)\<rparr>"
    using assms(2,3) by (rule callers_from_not_started)
  have t: "tasks ?s' = tasks s @ (Http, Read_Header) # replicate k (Http, Polling)"
    by (subst eq) simp
  have i: "isInitializing ?s'" by (subst eq) (simp add: start_load_def)
  have one: "loaders ?s' = 1"
    using z unfolding loaders_def t by (simp add: filter_loading_polling)
  have "coordinated (run es' ?s')"
    using c by (intro coordinated_run)
  then have "loaders (run es' ?s') \<le> 1" by (simp add: coordinated_def)
  then show ?thesis using t i z one by simp
qed

theorem one_load_at_a_time_witness:
  "\<not> isInitializing (run [] (boot False)) \<and> \<not> isDatabaseInitialized (run [] (boot False))
   \<and> tasks (run (replicate (Suc 2) (Request init_request True)) (run [] (boot False)))
       = tasks (run [] (boot False)) @ (Http, Read_Header) # replicate 2 (Http, Polling)
   \<and> isInitializing (run (replicate (Suc 2) (Request init_request True)) (run [] (boot False)))
   \<and> loaders (run [] (boot False)) = 0
   \<and> loaders (run (replicate (Suc 2) (Request init_request True)) (run [] (boot False))) = 1
   \<and> loaders (run [First_Pass 0 (Inl ''EIO''), Timer 1, Timer 2]
        (run (replicate (Suc 2) (Request init_request True)) (run [] (boot False)))) \<le> 1"
proof -
  have a: "\<not> isInitializing (run [] (boot False))" "\<not> isDatabaseInitialized (run [] (boot False))"
    by (simp_all add: boot_def pristine_def)
  show ?thesis
    by (rule conjI [OF a(1) conjI [OF a(2) one_load_at_a_time [OF refl a]]])
qed

section \<open>C3: the request gate\<close>

text \<open>
  C3. While \<open>isDatabaseInitialized\<close> is false, a request on any path other than
  \<open>/api/init\<close> and \<open>/health\<close> is answered by the gate with status 503 and
  \<open>success: false\<close>. The database and the queued statements are untouched, and the
  request has no pending engine call: a later completion event addressed to it does
  nothing.
\<close>

theorem gate_refuses_until_ready:
  assumes "path req \<noteq> ''/api/init''" and "path req \<noteq> ''/health''"
    and "\<not> isDatabaseInitialized s"
  shows "step (Request req csv) s
           = s\<lparr>tasks := tasks s @
               [(Http, Done (Responded \<lparr>status = 503,
                  body = Json_Message False
                    ''Database not initialized. Please call /api/init endpoint first.''\<rparr>))]\<rparr>
       \<and> db (step (Request req csv) s) = db s
       \<and> stmts (step (Request req csv) s) = stmts s
       \<and> step (Query_Done (length (tasks s)) fault) (step (Request req csv) s)
           = step (Request req csv) s"
  using assms
  by (simp add: on_request_def checkDatabaseReady_def respond_def task_at_def on_query_done_def)

theorem gate_refuses_until_ready_witness:
  "path (query_request (Select_All ''orders'')) \<noteq> ''/api/init''
   \<and> path (query_request (Select_All ''orders'')) \<noteq> ''/health''
   \<and> \<not> isDatabaseInitialized (boot True)
   \<and> tasks (step (Request (query_request (Select_All ''orders'')) True) (boot True)) ! 1
       = (Http, Done (Responded \<lparr>status = 503,
                  body = Json_Message False
                    ''Database not initialized. Please call /api/init endpoint first.''\<rparr>))
   \<and> db (step (Request (query_request (Select_All ''orders'')) True) (boot True)) = db (boot True)"
proof -
  have a: "path (query_request (Select_All ''orders'')) \<noteq> ''/api/init''"
    "path (query_request (Select_All ''orders'')) \<noteq> ''/health''"
    "\<not> isDatabaseInitialized (boot True)"
    by (simp_all add: query_request_def boot_def pristine_def)
  have t: "tasks (boot True) = [(Auto_Init, Read_Header)]"
    by (simp add: boot_def pristine_def)
  show ?thesis
    using a gate_refuses_until_ready [OF a, of True False] by (simp add: t)
qed

section \<open>C9: the readiness flag is monotone\<close>

text \<open>
  C9. Once \<open>isDatabaseInitialized\<close> is true it stays true under every sequence of
  events. A load that fails in that state runs the \<open>catch\<close> of \<open>loadCSVData\<close>, which
  leaves the flag true and resets \<open>isInitializing\<close> only.
\<close>

theorem ready_flag_monotone:
  assumes "isDatabaseInitialized s"
  shows "isDatabaseInitialized (run es s)
       \<and> isDatabaseInitialized (load_failed i c msg s)
       \<and> \<not> isInitializing (load_failed i c msg s)"
  using assms by (simp add: run_keeps_ready)


theorem ready_flag_monotone_witness:
  "isDatabaseInitialized (run small_load (boot False))
   \<and> isDatabaseInitialized
        (run [Request init_request False, Query_Done 1 True] (run small_load (boot False)))
   \<and> isDatabaseInitialized (load_failed 0 Http ''disk error'' (run small_load (boot False)))
   \<and> \<not> isInitializing (load_failed 0 Http ''disk error'' (run small_load (boot False)))"
proof -
  have a: "isDatabaseInitialized (run small_load (boot False))"
    by code_simp
  show ?thesis
    by (rule conjI [OF a ready_flag_monotone [OF a]])
qed


lemma task_at_set_task [simp]:
  "i < length (tasks s) \<Longrightarrow> task_at i (set_task i t s) = Some t"
  by (simp add: task_at_def)

lemma task_at_stmt_run [simp]: "task_at i (stmt_run k f s) = task_at i s"
  by (simp add: task_at_def)

lemma task_at_stmts_update [simp]: "task_at i (s\<lparr>stmts := q\<rparr>) = task_at i s"
  by (simp add: task_at_def)






section \<open>C10: the row count counts records, not inserts\<close>



section \<open>Batches\<close>

lemma set_task_twice [simp]: "set_task i t (set_task i t' s) = set_task i t s"
  by (simp add: set_task_def)

lemma set_task_stmts: "set_task i t (s\<lparr>stmts := q\<rparr>) = (set_task i t s)\<lparr>stmts := q\<rparr>"
  by (simp add: set_task_def)

lemma set_task_same: "tasks s ! i = t \<Longrightarrow> set_task i t s = s"
  by (cases s) (auto simp: set_task_def)

lemma data_below_batch:
  assumes "task_at i s = Some (c, Inserting hs b n)" and "Suc (length b) < batchSize"
  shows "step (Data i r) s = set_task i (c, Inserting hs (b @ [r]) n) s"
  using assms by (simp add: on_data_def Let_def)

lemma data_fills_batch:
  assumes "task_at i s = Some (c, Inserting hs b n)" and "Suc (length b) = batchSize"
  shows "step (Data i r) s
     = set_task i (c, Inserting hs [] (n + batchSize))
         (s\<lparr>stmts := stmts s @ [insertBatch hs (b @ [r])]\<rparr>)"
  using assms by (simp add: on_data_def Let_def)

lemma feed_partial:
  assumes "task_at i s = Some (c, Inserting hs b n)" and "length b + length rs < batchSize"
  shows "run (map (Data i) rs) s = set_task i (c, Inserting hs (b @ rs) n) s"
  using assms
proof (induction rs arbitrary: s b)
  case Nil
  then show ?case by (simp add: set_task_same task_at_Some)
next
  case (Cons r rs)
  have lt: "i < length (tasks s)" using Cons.prems(1) by (simp add: task_at_Some)
  have 1: "step (Data i r) s = set_task i (c, Inserting hs (b @ [r]) n) s"
    using Cons.prems by (intro data_below_batch) simp_all
  have 2: "task_at i (set_task i (c, Inserting hs (b @ [r]) n) s)
      = Some (c, Inserting hs (b @ [r]) n)"
    using lt by simp
  have 3: "length (b @ [r]) + length rs < batchSize" using Cons.prems(2) by simp
  show ?case
    using Cons.IH [OF 2 3] by (simp add: 1 del: step.simps)
qed

lemma feed_full:
  assumes "task_at i s = Some (c, Inserting hs b n)" and "length b + length rs = batchSize"
    and "rs \<noteq> []"
  shows "run (map (Data i) rs) s
     = set_task i (c, Inserting hs [] (n + batchSize))
         (s\<lparr>stmts := stmts s @ [insertBatch hs (b @ rs)]\<rparr>)"
proof -
  have lt: "i < length (tasks s)" using assms(1) by (simp add: task_at_Some)
  obtain rs' r where rs: "rs = rs' @ [r]"
    using assms(3) by (metis append_butlast_last_id)
  have 1: "run (map (Data i) rs') s = set_task i (c, Inserting hs (b @ rs') n) s"
    using assms(1,2) by (intro feed_partial) (simp_all add: rs)
  have 2: "task_at i (set_task i (c, Inserting hs (b @ rs') n) s)
      = Some (c, Inserting hs (b @ rs') n)"
    using lt by simp
  have 3: "Suc (length (b @ rs')) = batchSize" using assms(2) by (simp add: rs)
  have "run (map (Data i) rs) s = step (Data i r) (set_task i (c, Inserting hs (b @ rs') n) s)"
    by (simp add: rs run_append 1 del: step.simps)
  also have "\<dots> = set_task i (c, Inserting hs [] (n + batchSize))
         ((set_task i (c, Inserting hs (b @ rs') n) s)\<lparr>stmts := stmts s @ [insertBatch hs ((b @ rs') @ [r])]\<rparr>)"
    using data_fills_batch [OF 2 3, of r] by simp
  also have "\<dots> = set_task i (c, Inserting hs [] (n + batchSize))
         (s\<lparr>stmts := stmts s @ [insertBatch hs (b @ rs)]\<rparr>)"
    by (simp add: rs set_task_def)
  finally show ?thesis .
qed


lemma load_prefix:
  assumes "headers \<noteq> []"
  shows "run [Request init_request True, First_Pass 0 (Inr (Some headers)),
              Query_Done 0 False, Query_Done 0 False] (boot False)
       = table_created headers"
proof -
  have 1: "step (Request init_request True) (boot False)
      = \<lparr>isDatabaseInitialized = False, isInitializing = True, db = Map.empty, stmts = [],
         tasks = [(Http, Read_Header)], streamsOpened = 1\<rparr>" (is "_ = ?s1")
    by (simp add: boot_def pristine_def init_request_claims start_load_def del: step.simps)
  have 2: "step (First_Pass 0 (Inr (Some headers))) ?s1
      = \<lparr>isDatabaseInitialized = False, isInitializing = True, db = Map.empty, stmts = [],
         tasks = [(Http, Dropping headers)], streamsOpened = 1\<rparr>" (is "_ = ?s2")
    using assms by (simp add: task_at_def on_first_pass_def set_task_def)
  have 3: "step (Query_Done 0 False) ?s2
      = \<lparr>isDatabaseInitialized = False, isInitializing = True, db = Map.empty, stmts = [],
         tasks = [(Http, Creating headers)], streamsOpened = 1\<rparr>" (is "_ = ?s3")
    by (simp add: task_at_def on_query_done_def db_all_def set_task_def)
  have 4: "step (Query_Done 0 False) ?s3 = table_created headers"
    by (simp add: task_at_def on_query_done_def db_all_def set_task_def table_created_def)
  show ?thesis
    by (simp only: run.simps 1 2 3 4)
qed

lemma end_of_load:
  assumes "task_at i s = Some (c, Inserting hs b n)" and "b \<noteq> []"
  shows "step (Stream_End i) s
     = set_task i (c, Done (returned c (Integer (n + length b)) (json_schema (inferSchema hs))))
         (s\<lparr>stmts := stmts s @ [insertBatch hs b],
            isDatabaseInitialized := True, isInitializing := False\<rparr>)"
  using assms by (simp add: on_end_def Let_def)

section \<open>C7: 2001 records make three batches\<close>

text \<open>
  C7. A load served alone of a file with a non-empty header and exactly 2001 records
  prepares exactly three INSERT statements: the first holds the first 1000 records, the
  second the next 1000, the third, prepared at \<open>end\<close>, the last one. The caller gets
  \<open>rowCount = 2001\<close> and the load is published as successful.
\<close>

theorem batches_of_2001:
  assumes "headers \<noteq> []" and "length records = 2001"
  shows "stmts (run (load_events headers records) (boot False))
           = [insertBatch headers (take 1000 records),
              insertBatch headers (take 1000 (drop 1000 records)),
              insertBatch headers (drop 2000 records)]
       \<and> map (\<lambda>st. length (queue st)) (stmts (run (load_events headers records) (boot False)))
           = [1000, 1000, 1]
       \<and> tasks (run (load_events headers records) (boot False))
           = [(Http, Done (returned Http (Integer 2001) (json_schema (inferSchema headers))))]
       \<and> isDatabaseInitialized (run (load_events headers records) (boot False))"
proof -
  let ?r1 = "take 1000 records" and ?r2 = "take 1000 (drop 1000 records)"
    and ?r3 = "drop 2000 records"
  let ?s0 = "table_created headers"
  let ?s1 = "set_task 0 (Http, Inserting headers [] (0 + batchSize))
               (?s0\<lparr>stmts := stmts ?s0 @ [insertBatch headers ([] @ ?r1)]\<rparr>)"
  let ?s2 = "set_task 0 (Http, Inserting headers [] (0 + batchSize + batchSize))
               (?s1\<lparr>stmts := stmts ?s1 @ [insertBatch headers ([] @ ?r2)]\<rparr>)"
  let ?s3 = "set_task 0 (Http, Inserting headers ([] @ ?r3) (0 + batchSize + batchSize)) ?s2"
  have split: "records = ?r1 @ ?r2 @ ?r3"
    by (metis append_take_drop_id drop_drop numeral_Bit0)
  have len: "length ?r1 = 1000" "length ?r2 = 1000" "length ?r3 = 1"
    using assms(2) by simp_all
  have t0: "task_at 0 ?s0 = Some (Http, Inserting headers [] 0)"
    by (simp add: task_at_def table_created_def)
  have f1: "run (map (Data 0) ?r1) ?s0 = ?s1"
    using t0 by (rule feed_full) (use len in \<open>auto simp: batchSize_def\<close>)
  have t1: "task_at 0 ?s1 = Some (Http, Inserting headers [] (0 + batchSize))"
    by (simp add: task_at_def table_created_def)
  have f2: "run (map (Data 0) ?r2) ?s1 = ?s2"
    using t1 by (rule feed_full) (use len in \<open>auto simp: batchSize_def\<close>)
  have t2: "task_at 0 ?s2 = Some (Http, Inserting headers [] (0 + batchSize + batchSize))"
    by (simp add: task_at_def table_created_def)
  have f3: "run (map (Data 0) ?r3) ?s2 = ?s3"
    using t2 by (rule feed_partial) (use len in \<open>simp add: batchSize_def\<close>)
  have t3: "task_at 0 ?s3 = Some (Http, Inserting headers ([] @ ?r3) (0 + batchSize + batchSize))"
    by (simp add: task_at_def table_created_def)
  have ne: "[] @ ?r3 \<noteq> []" using len(3) by auto
  have "run (map (Data 0) records) ?s0 = run (map (Data 0) (?r1 @ ?r2 @ ?r3)) ?s0"
    using split by simp
  also have "\<dots> = ?s3"
    unfolding map_append run_append f1 f2 f3 ..
  finally have fed: "run (map (Data 0) records) ?s0 = ?s3" .
  have "run (load_events headers records) (boot False)
      = step (Stream_End 0) (run (map (Data 0) records) ?s0)"
    unfolding load_events_def run_append load_prefix [OF assms(1)] by simp
  also have "\<dots> = step (Stream_End 0) ?s3" by (simp only: fed)
  finally have fin: "run (load_events headers records) (boot False)
      = set_task 0 (Http, Done (returned Http
            (Integer (0 + batchSize + batchSize + length ([] @ ?r3)))
            (json_schema (inferSchema headers))))
         (?s3\<lparr>stmts := stmts ?s3 @ [insertBatch headers ([] @ ?r3)],
            isDatabaseInitialized := True, isInitializing := False\<rparr>)"
    unfolding end_of_load [OF t3 ne] .
  show ?thesis
    unfolding fin using len
    by (simp add: set_task_def table_created_def batchSize_def insertBatch_def)
qed


theorem batches_of_2001_witness:
  "[''a''] \<noteq> [] \<and> length (replicate 2001 [(''a'', ''1'')]) = 2001
   \<and> stmts (run (load_events [''a''] (replicate 2001 [(''a'', ''1'')])) (boot False))
           = [insertBatch [''a''] (take 1000 (replicate 2001 [(''a'', ''1'')])),
              insertBatch [''a''] (take 1000 (drop 1000 (replicate 2001 [(''a'', ''1'')]))),
              insertBatch [''a''] (drop 2000 (replicate 2001 [(''a'', ''1'')]))]
       \<and> map (\<lambda>st. length (queue st))
            (stmts (run (load_events [''a''] (replicate 2001 [(''a'', ''1'')])) (boot False)))
           = [1000, 1000, 1]
       \<and> tasks (run (load_events [''a''] (replicate 2001 [(''a'', ''1'')])) (boot False))
           = [(Http, Done (returned Http (Integer 2001) (json_schema (inferSchema [''a'']))))]
       \<and> isDatabaseInitialized
            (run (load_events [''a''] (replicate 2001 [(''a'', ''1'')])) (boot False))"
proof -
  have a: "[''a''] \<noteq> []" "length (replicate 2001 [(''a'', ''1'')]) = 2001"
    by simp_all
  show ?thesis
    by (rule conjI [OF a(1) conjI [OF a(2) batches_of_2001 [OF a]]])
qed

section \<open>C8: round trip\<close>


section \<open>C2: what a reader can see right after a load is published\<close>

text \<open>
  Loads and readers do not overlap as far as the flags go: once the database is
  initialized no task is inside the loader, in every state the process can reach. So a
  load that fails does so while readers are still refused by the gate.
\<close>

lemma no_load_once_ready:
  "isDatabaseInitialized (run es (boot csv)) \<Longrightarrow> loaders (run es (boot csv)) = 0"
  using coordinated_ready [OF coordinated_run [OF coordinated_boot]] .

text \<open>
  C2, evaluated at the file with header \<open>a,b\<close> and two records. The \<open>end\<close> handler
  sets \<open>isDatabaseInitialized\<close> in the same segment that queues the last batch, so the
  caller is told that 2 rows are loaded while the table is still empty and both inserts
  wait in the statement's queue. The source never calls \<open>db.serialize\<close>, so a
  \<open>db.all\<close> of a reader is a separate statement the engine may execute first: the
  reader passes the gate and gets 0 rows.
\<close>

theorem ready_before_rows:
  "isDatabaseInitialized (run small_load (boot False))
   \<and> tasks (run small_load (boot False)) ! 0
       = (Http, Done (Responded \<lparr>status = 200,
            body = Json_Init True ''Successfully loaded 2 rows into table orders''
              [(Text ''a'', Text ''TEXT''), (Text ''b'', Text ''TEXT'')]\<rparr>))
   \<and> map_option rows (db (run small_load (boot False)) ''orders'') = Some []
   \<and> map (\<lambda>st. length (queue st)) (stmts (run small_load (boot False))) = [2]
   \<and> tasks (run (small_load @
        [Request (query_request (Select_All ''orders'')) True, Query_Done 1 False]) (boot False)) ! 1
       = (Http, Done (Responded \<lparr>status = 200,
            body = Json_Data True [] ''Query executed successfully. 0 rows returned.''\<rparr>))"
  by code_simp

section \<open>C4: a failed insert\<close>

text \<open>
  C4, evaluated at the file with the single header field \<open>x, y\<close> and one record, whose
  INSERT the engine rejects. \<open>stmt.run\<close> was called without a callback and the load
  did not wait for it: the caller has been told that 1 row was loaded,
  \<open>isDatabaseInitialized\<close> is set, nothing is reset, and the table is empty.
\<close>

theorem insert_error_unobserved:
  "isDatabaseInitialized (run comma_header_load (boot False))
   \<and> \<not> isInitializing (run comma_header_load (boot False))
   \<and> tasks (run comma_header_load (boot False))
       = [(Http, Done (Responded \<lparr>status = 200,
            body = Json_Init True ''Successfully loaded 1 rows into table orders''
              [(Text ''x, y'', Text ''TEXT'')]\<rparr>))]
   \<and> map_option rows (db (run comma_header_load (boot False)) ''orders'') = Some []"
  by code_simp

section \<open>C6: /api/init without the file\<close>

text \<open>
  C6 as stated fails once the database is initialized and idle: \<open>/api/init\<close> then
  answers from the engine before it looks for the file, here with status 200.
\<close>

theorem init_ready_ignores_missing_file:
  "tasks (run (drained_load @
       [Request init_request False, Query_Done 1 False, Query_Done 1 False]) (boot False)) ! 1
     = (Http, Done (Responded \<lparr>status = 200,
          body = Json_Init True ''Database already initialized with 2 rows in table orders''
            [(Text ''a'', Text ''TEXT''), (Text ''b'', Text ''TEXT'')]\<rparr>))"
  by code_simp

text \<open>
  C6, amended. A POST to \<open>/api/init\<close> that arrives while the database is not both
  initialized and idle, and finds no CSV file, is answered with status 404,
  \<open>success: false\<close> and a message; nothing else changes.
\<close>

theorem init_without_file:
  assumes "http_method req = POST" and "path req = ''/api/init''"
    and "\<not> (isDatabaseInitialized s \<and> \<not> isInitializing s)"
  shows "step (Request req False) s
     = s\<lparr>tasks := tasks s @
         [(Http, Done (Responded \<lparr>status = 404,
            body = Json_Message False
              ''CSV file not found. Please upload the file first.''\<rparr>))]\<rparr>"
  using assms
  by (auto simp: on_request_def checkDatabaseReady_def route_def api_init_def respond_def)

theorem init_without_file_witness:
  "http_method init_request = POST \<and> path init_request = ''/api/init''
   \<and> \<not> (isDatabaseInitialized (boot False) \<and> \<not> isInitializing (boot False))
   \<and> step (Request init_request False) (boot False)
     = (boot False)\<lparr>tasks := tasks (boot False) @
         [(Http, Done (Responded \<lparr>status = 404,
            body = Json_Message False
              ''CSV file not found. Please upload the file first.''\<rparr>))]\<rparr>"
proof -
  have a: "http_method init_request = POST" "path init_request = ''/api/init''"
    "\<not> (isDatabaseInitialized (boot False) \<and> \<not> isInitializing (boot False))"
    by (simp_all add: init_request_def boot_def pristine_def)
  show ?thesis
    by (rule conjI [OF a(1) conjI [OF a(2) conjI [OF a(3) init_without_file [OF a]]]])
qed




section \<open>C5: /api/init twice after a successful load\<close>



end
